theory Spec2Isabelle
  imports
    Complex_Main
    "HOL-Library.AList"
    "HOL-Library.Char_ord"
    "HOL-Library.List_Lexorder"
    "HOL-Library.Product_Lexorder"
    "HOL-Library.Multiset"
    "HOL-Library.Sublist"
begin

section \<open>Conventions of the embedding\<close>

text \<open>
  The development embeds the activation engine (\<^verbatim>\<open>nce/engine.py\<close>), the graph
  (\<^verbatim>\<open>nce/brain.py\<close>) and the two memories (\<^verbatim>\<open>nce/memory.py\<close>).

  \<^item> A Python \<^verbatim>\<open>float\<close> is a \<^typ>\<open>real\<close>: arithmetic is exact, rounding is not modelled.
  \<^item> A Python \<^verbatim>\<open>int\<close> is an \<^typ>\<open>int\<close>, a \<^verbatim>\<open>str\<close> a \<^typ>\<open>string\<close>, compared
    lexicographically character by character as Python does.
  \<^item> A \<^verbatim>\<open>dict\<close> is an association list in insertion order: \<^const>\<open>map_of\<close> is
    \<^verbatim>\<open>d.get(k)\<close>, \<^const>\<open>AList.update\<close> is \<^verbatim>\<open>d[k] = v\<close> (an existing key keeps its
    position, a new key goes to the end), \<^verbatim>\<open>d.values()\<close> is \<open>map snd\<close>.
  \<^item> An object mutated in place is a record returned updated.
  \<^item> The profiler's timers and counters and the per-step node and edge records of the
    trace are written and never read by the engine; they are left out. The trace keeps
    the field \<^verbatim>\<open>response_intent\<close>, which \<^verbatim>\<open>select_response\<close> writes.
\<close>

section \<open>Python list slices\<close>

text \<open>
  \<^verbatim>\<open>xs[k:]\<close> and \<^verbatim>\<open>xs[:k]\<close>: a negative bound counts from the end, and every bound is
  clipped to the list.
\<close>

definition slice_bound :: "int \<Rightarrow> 'a list \<Rightarrow> nat" where
  "slice_bound k xs =
     (let len = int (length xs)
      in nat (if k < 0 then max (len + k) 0 else min k len))"

definition slice_from :: "int \<Rightarrow> 'a list \<Rightarrow> 'a list" where
  "slice_from k xs = drop (slice_bound k xs) xs"

definition slice_to :: "int \<Rightarrow> 'a list \<Rightarrow> 'a list" where
  "slice_to k xs = take (slice_bound k xs) xs"

section \<open>Short-term memory (\<^verbatim>\<open>ShortTermMemory\<close>)\<close>

record stm_entry =
  turn_number :: int
  input_text :: string
  active_concepts :: "string list"
  response_text :: string

text \<open>\<^verbatim>\<open>_buffer\<close> is a \<^verbatim>\<open>deque(maxlen=capacity)\<close>, oldest entry first.\<close>

record short_term_memory =
  capacity :: nat
  buffer :: "stm_entry list"

definition deque_append :: "nat \<Rightarrow> 'a list \<Rightarrow> 'a \<Rightarrow> 'a list" where
  "deque_append maxlen d x =
     (if maxlen = 0 then d
      else if length d \<ge> maxlen then tl d @ [x]
      else d @ [x])"

definition add_turn ::
  "short_term_memory \<Rightarrow> int \<Rightarrow> string \<Rightarrow> string list \<Rightarrow> string \<Rightarrow> short_term_memory" where
  "add_turn m t inp concepts resp =
     m\<lparr>buffer := deque_append (capacity m) (buffer m)
          \<lparr>turn_number = t, input_text = inp, active_concepts = concepts,
           response_text = resp\<rparr>\<rparr>"

text \<open>\<^verbatim>\<open>items = list(self._buffer); return items[-n:]\<close>\<close>

definition get_recent :: "short_term_memory \<Rightarrow> int \<Rightarrow> stm_entry list" where
  "get_recent m n = (let items = buffer m in slice_from (- n) items)"

text \<open>
  \<^verbatim>\<open>get_primed_concepts\<close> returns a Python set. The engine only iterates over it, so the
  model returns its elements as a duplicate-free list, in order of first appearance.
\<close>

definition get_primed_concepts :: "short_term_memory \<Rightarrow> string list" where
  "get_primed_concepts m = remdups (concat (map active_concepts (buffer m)))"

section \<open>Episodic memory (\<^verbatim>\<open>EpisodicMemory\<close>)\<close>

record episode =
  turn :: int
  context_concepts :: "string set"
  outcome_concepts :: "string set"
  reinforcement :: real

record episodic_memory =
  max_episodes :: int
  episodes :: "episode list"

datatype py_error = IndexError

text \<open>\<^verbatim>\<open>self._episodes.pop(0)\<close> raises \<^verbatim>\<open>IndexError\<close> on an empty list.\<close>

definition store_episode ::
  "episodic_memory \<Rightarrow> int \<Rightarrow> string set \<Rightarrow> string set \<Rightarrow> real \<Rightarrow> py_error + episodic_memory" where
  "store_episode m t ctx out r =
     (let ep = \<lparr>turn = t, context_concepts = ctx, outcome_concepts = out, reinforcement = r\<rparr>
      in if int (length (episodes m)) \<ge> max_episodes m then
           (case episodes m of
              [] \<Rightarrow> Inl IndexError
            | _ # rest \<Rightarrow> Inr (m\<lparr>episodes := rest @ [ep]\<rparr>))
         else Inr (m\<lparr>episodes := episodes m @ [ep]\<rparr>))"

definition jaccard :: "string set \<Rightarrow> episode \<Rightarrow> real" where
  "jaccard current_concepts ep =
     (let intersection = current_concepts \<inter> context_concepts ep;
          union = current_concepts \<union> context_concepts ep
      in if union \<noteq> {} then real (card intersection) / real (card union) else 0)"

text \<open>
  \<^verbatim>\<open>scored.sort(key=lambda t: t[0], reverse=True)\<close>: Python's sort is stable, and with
  \<^verbatim>\<open>reverse=True\<close> it reverses the list, sorts it and reverses it again, so that elements
  with equal keys keep their order.
\<close>

definition sort_scored :: "(real \<times> episode) list \<Rightarrow> (real \<times> episode) list" where
  "sort_scored scored = rev (sort_key fst (rev scored))"

definition score_episodes :: "string set \<Rightarrow> episode list \<Rightarrow> (real \<times> episode) list" where
  "score_episodes current_concepts eps =
     fold (\<lambda>ep scored. scored @ [(jaccard current_concepts ep, ep)]) eps []"

text \<open>
  The method reads \<^verbatim>\<open>self._episodes\<close>; the model returns the memory after the call beside
  the result.
\<close>

definition recall_similar ::
  "episodic_memory \<Rightarrow> string set \<Rightarrow> int \<Rightarrow> episode list \<times> episodic_memory" where
  "recall_similar m current_concepts top_k =
     (if current_concepts = {} \<or> episodes m = [] then ([], m)
      else
        let scored = score_episodes current_concepts (episodes m);
            scored' = sort_scored scored
        in (map snd (slice_to top_k scored'), m))"

section \<open>The graph (\<^verbatim>\<open>BrainGraph\<close>)\<close>

record node =
  node_id :: string
  node_type :: string
  label :: string
  base_activation :: real
  activation :: real

text \<open>\<^verbatim>\<open>edge_type\<close> is a free string in the source; only \<^verbatim>\<open>"excitatory"\<close> is tested for.\<close>

record edge =
  source :: string
  target :: string
  weight :: real
  edge_type :: string

record response_rule =
  rule_id :: string
  trigger_concepts :: "string list"
  intent :: string
  priority :: int

record brain_graph =
  nodes :: "(string \<times> node) list"
  edges :: "edge list"
  adjacency :: "(string \<times> edge list) list"
  responses :: "response_rule list"

definition empty_graph :: brain_graph where
  "empty_graph = \<lparr>nodes = [], edges = [], adjacency = [], responses = []\<rparr>"

definition get_node :: "brain_graph \<Rightarrow> string \<Rightarrow> node option" where
  "get_node g nid = map_of (nodes g) nid"

definition get_edges_from :: "brain_graph \<Rightarrow> string \<Rightarrow> edge list" where
  "get_edges_from g nid = (case map_of (adjacency g) nid of None \<Rightarrow> [] | Some es \<Rightarrow> es)"

text \<open>\<^verbatim>\<open>d.setdefault(k, [])\<close> as a statement: the key is added when absent.\<close>

definition setdefault :: "'k \<Rightarrow> 'v \<Rightarrow> ('k \<times> 'v) list \<Rightarrow> ('k \<times> 'v) list" where
  "setdefault k v d = (case map_of d k of None \<Rightarrow> AList.update k v d | Some _ \<Rightarrow> d)"

definition add_node :: "node \<Rightarrow> brain_graph \<Rightarrow> brain_graph" where
  "add_node n g =
     g\<lparr>nodes := AList.update (node_id n) n (nodes g),
       adjacency := setdefault (node_id n) [] (adjacency g)\<rparr>"

definition add_edge :: "edge \<Rightarrow> brain_graph \<Rightarrow> brain_graph" where
  "add_edge e g =
     g\<lparr>edges := edges g @ [e],
       adjacency := AList.update (source e) (get_edges_from g (source e) @ [e]) (adjacency g)\<rparr>"

definition add_response :: "response_rule \<Rightarrow> brain_graph \<Rightarrow> brain_graph" where
  "add_response r g = g\<lparr>responses := responses g @ [r]\<rparr>"

definition reset_activations :: "brain_graph \<Rightarrow> brain_graph" where
  "reset_activations g =
     g\<lparr>nodes := map (\<lambda>(k, n). (k, n\<lparr>activation := base_activation n\<rparr>)) (nodes g)\<rparr>"

section \<open>The engine (\<^verbatim>\<open>NCEEngine\<close>)\<close>

definition ACTIVATION_THRESHOLD :: real where
  "ACTIVATION_THRESHOLD = 0.05"

definition default_modulators :: "(string \<times> real) list" where
  "default_modulators = [(''curiosity'', 1), (''urgency'', 1)]"

text \<open>Assignment to one field of the node stored under a key: \<^verbatim>\<open>node.activation = a\<close>.\<close>

definition set_activation :: "string \<Rightarrow> real \<Rightarrow> brain_graph \<Rightarrow> brain_graph" where
  "set_activation nid a g =
     (case get_node g nid of
        None \<Rightarrow> g
      | Some n \<Rightarrow> g\<lparr>nodes := AList.update nid (n\<lparr>activation := a\<rparr>) (nodes g)\<rparr>)"

subsection \<open>Stage 3: seeding and priming\<close>

definition seed_node :: "string \<Rightarrow> brain_graph \<Rightarrow> brain_graph" where
  "seed_node cid g =
     (case get_node g cid of None \<Rightarrow> g | Some n \<Rightarrow> set_activation cid 1 g)"

definition prime_node :: "string \<Rightarrow> brain_graph \<Rightarrow> brain_graph" where
  "prime_node pid g =
     (case get_node g pid of
        None \<Rightarrow> g
      | Some n \<Rightarrow>
          if activation n < 1 then set_activation pid (min 1 (activation n + 0.3)) g
          else g)"

definition inject_activation ::
  "brain_graph \<Rightarrow> short_term_memory \<Rightarrow> string list \<Rightarrow> brain_graph" where
  "inject_activation g stm concept_ids =
     (let g' = fold seed_node concept_ids g;
          primed = get_primed_concepts stm
      in fold prime_node primed g')"

subsection \<open>Stage 4: spreading\<close>

definition mod_factor :: "(string \<times> real) list \<Rightarrow> real" where
  "mod_factor modulators = fold (\<lambda>val m. m * val) (map snd modulators) 1"

text \<open>
  The delta one edge contributes, from the activation of its source node, after the
  modulator scaling.
\<close>

definition edge_delta :: "real \<Rightarrow> edge \<Rightarrow> real \<Rightarrow> real \<Rightarrow> real" where
  "edge_delta act e decay_factor mf =
     (if edge_type e = ''excitatory'' then act * weight e * decay_factor
      else - (act * \<bar>weight e\<bar> * 0.5)) * mf"

definition dict_get :: "('k \<times> real) list \<Rightarrow> 'k \<Rightarrow> real \<Rightarrow> real" where
  "dict_get d k dflt = (case map_of d k of None \<Rightarrow> dflt | Some v \<Rightarrow> v)"

text \<open>The inner loop over the outgoing edges of one active node.\<close>

fun scan_edges ::
  "brain_graph \<Rightarrow> node \<Rightarrow> real \<Rightarrow> real \<Rightarrow> edge list \<Rightarrow> (string \<times> real) list \<Rightarrow> (string \<times> real) list" where
  "scan_edges g n decay_factor mf [] updates = updates"
| "scan_edges g n decay_factor mf (e # es) updates =
     (case get_node g (target e) of
        None \<Rightarrow> scan_edges g n decay_factor mf es updates
      | Some t \<Rightarrow>
          scan_edges g n decay_factor mf es
            (AList.update (target e)
               (dict_get updates (target e) 0 + edge_delta (activation n) e decay_factor mf)
               updates))"

text \<open>The loop over \<^verbatim>\<open>self.graph.nodes.values()\<close>; the graph is only read.\<close>

fun scan_nodes ::
  "brain_graph \<Rightarrow> real \<Rightarrow> real \<Rightarrow> node list \<Rightarrow> (string \<times> real) list \<Rightarrow> (string \<times> real) list" where
  "scan_nodes g decay_factor mf [] updates = updates"
| "scan_nodes g decay_factor mf (n # ns) updates =
     (if activation n \<le> ACTIVATION_THRESHOLD then scan_nodes g decay_factor mf ns updates
      else scan_nodes g decay_factor mf ns
             (scan_edges g n decay_factor mf (get_edges_from g (node_id n)) updates))"

definition apply_update :: "string \<times> real \<Rightarrow> brain_graph \<Rightarrow> brain_graph" where
  "apply_update u g =
     (case get_node g (fst u) of
        None \<Rightarrow> g
      | Some t \<Rightarrow> set_activation (fst u) (max 0 (min 1 (activation t + snd u))) g)"

definition apply_updates :: "(string \<times> real) list \<Rightarrow> brain_graph \<Rightarrow> brain_graph" where
  "apply_updates updates g = fold apply_update updates g"

definition spread_step :: "real \<Rightarrow> real \<Rightarrow> nat \<Rightarrow> brain_graph \<Rightarrow> brain_graph" where
  "spread_step decay mf step g =
     (let decay_factor = decay ^ step;
          updates = scan_nodes g decay_factor mf (map snd (nodes g)) []
      in apply_updates updates g)"

text \<open>\<^verbatim>\<open>for step in range(steps)\<close>: no step at all when \<open>steps \<le> 0\<close>.\<close>

definition spread_activation ::
  "brain_graph \<Rightarrow> (string \<times> real) list \<Rightarrow> int \<Rightarrow> real \<Rightarrow> brain_graph" where
  "spread_activation g modulators steps decay =
     (let mf = mod_factor modulators
      in fold (spread_step decay mf) [0 ..< nat steps] g)"

subsection \<open>Stage 5: response selection\<close>

record thought_trace =
  response_intent :: string

text \<open>\<^verbatim>\<open>sum(... for c in rule.trigger_concepts)\<close> adds from the left, starting at 0.\<close>

definition trigger_sum :: "brain_graph \<Rightarrow> string list \<Rightarrow> real" where
  "trigger_sum g cs =
     fold (\<lambda>c acc. acc + (case get_node g c of None \<Rightarrow> 0 | Some n \<Rightarrow> activation n)) cs 0"

definition rule_score :: "brain_graph \<Rightarrow> response_rule \<Rightarrow> real" where
  "rule_score g rule =
     (let score = trigger_sum g (trigger_concepts rule)
      in score + real_of_int (priority rule) * 0.01)"

text \<open>The loop over \<^verbatim>\<open>self.graph.responses\<close>, on the pair of \<^verbatim>\<open>best_rule\<close> and \<^verbatim>\<open>best_score\<close>.\<close>

fun scan_rules ::
  "brain_graph \<Rightarrow> response_rule list \<Rightarrow> response_rule option \<times> real \<Rightarrow> response_rule option \<times> real" where
  "scan_rules g [] best = best"
| "scan_rules g (rule # rules) (best_rule, best_score) =
     (let score = rule_score g rule
      in if score > best_score then scan_rules g rules (Some rule, score)
         else scan_rules g rules (best_rule, best_score))"

definition fallback_rule :: response_rule where
  "fallback_rule =
     \<lparr>rule_id = ''r_fallback'', trigger_concepts = [], intent = ''unknown'', priority = 0\<rparr>"

definition select_response :: "brain_graph \<Rightarrow> thought_trace \<Rightarrow> response_rule \<times> thought_trace" where
  "select_response g trace =
     (let (best_rule, best_score) = scan_rules g (responses g) (None, - 1);
          chosen =
            (case best_rule of
               None \<Rightarrow> fallback_rule
             | Some r \<Rightarrow> if best_score < ACTIVATION_THRESHOLD then fallback_rule else r)
      in (chosen, trace\<lparr>response_intent := intent chosen\<rparr>))"

subsection \<open>Stage 6: the active concepts handed to the realizer\<close>

text \<open>
  \<^verbatim>\<open>active.sort(reverse=True)\<close> on \<^verbatim>\<open>(activation, id)\<close> tuples, which Python compares
  lexicographically.
\<close>

definition active_pairs :: "brain_graph \<Rightarrow> (real \<times> string) list" where
  "active_pairs g =
     (let active = map (\<lambda>n. (activation n, node_id n))
                     (filter (\<lambda>n. activation n > ACTIVATION_THRESHOLD) (map snd (nodes g)))
      in rev (sort (rev active)))"

definition active_ids :: "brain_graph \<Rightarrow> string list" where
  "active_ids g = map snd (active_pairs g)"

section \<open>Notions used to state the properties\<close>

definition activation_of :: "brain_graph \<Rightarrow> string \<Rightarrow> real option" where
  "activation_of g nid = map_option activation (get_node g nid)"

definition activations_in_range :: "brain_graph \<Rightarrow> bool" where
  "activations_in_range g =
     list_all (\<lambda>(k, n). 0 \<le> activation n \<and> activation n \<le> 1) (nodes g)"

definition base_activations_in_range :: "brain_graph \<Rightarrow> bool" where
  "base_activations_in_range g =
     list_all (\<lambda>(k, n). 0 \<le> base_activation n \<and> base_activation n \<le> 1) (nodes g)"

text \<open>
  The step as the specification words it: the deltas that the edges \<open>es\<close> of an emitting
  node \<open>n\<close> send into the node \<open>k\<close>, and the deltas that all the nodes \<open>ns\<close> above the
  threshold send into \<open>k\<close>, every one computed from the activations the graph \<open>g\<close> has
  when the step starts.
\<close>

definition deltas_into ::
  "brain_graph \<Rightarrow> real \<Rightarrow> real \<Rightarrow> string \<Rightarrow> node \<Rightarrow> edge list \<Rightarrow> real list" where
  "deltas_into g decay_factor mf k n es =
     map (\<lambda>e. edge_delta (activation n) e decay_factor mf)
       (filter (\<lambda>e. target e = k \<and> get_node g (target e) \<noteq> None) es)"

definition emitted_into ::
  "brain_graph \<Rightarrow> real \<Rightarrow> real \<Rightarrow> string \<Rightarrow> node list \<Rightarrow> real list" where
  "emitted_into g decay_factor mf k ns =
     concat (map (\<lambda>n. deltas_into g decay_factor mf k n (get_edges_from g (node_id n)))
               (filter (\<lambda>n. activation n > ACTIVATION_THRESHOLD) ns))"

section \<open>Scenarios\<close>

definition concept :: "string \<Rightarrow> real \<Rightarrow> node" where
  "concept nid base =
     \<lparr>node_id = nid, node_type = ''concept'', label = nid, base_activation = base,
      activation = base\<rparr>"

definition empty_stm :: short_term_memory where
  "empty_stm = \<lparr>capacity = 5, buffer = []\<rparr>"

definition empty_trace :: thought_trace where
  "empty_trace = \<lparr>response_intent = []\<rparr>"

definition hello_graph :: brain_graph where
  "hello_graph =
     add_edge \<lparr>source = ''hello'', target = ''greeting'', weight = 0.9, edge_type = ''excitatory''\<rparr>
       (add_node (concept ''greeting'' 0) (add_node (concept ''hello'' 0) empty_graph))"

definition hello_seeded :: brain_graph where
  "hello_seeded = inject_activation (reset_activations hello_graph) empty_stm [''hello'']"

definition fear_edge :: edge where
  "fear_edge = \<lparr>source = ''fear'', target = ''calm'', weight = 0.4, edge_type = ''inhibitory''\<rparr>"

definition fear_graph :: brain_graph where
  "fear_graph =
     add_edge fear_edge
       (add_node (concept ''calm'' 0.5) (add_node (concept ''fear'' 0) empty_graph))"

definition fear_seeded :: brain_graph where
  "fear_seeded = inject_activation (reset_activations fear_graph) empty_stm [''fear'']"

definition negative_edge :: edge where
  "negative_edge = \<lparr>source = ''a'', target = ''b'', weight = - 0.5, edge_type = ''excitatory''\<rparr>"

definition negative_graph :: brain_graph where
  "negative_graph =
     add_edge negative_edge
       (add_node (concept ''b'' 0.5) (add_node (concept ''a'' 0) empty_graph))"

definition negative_seeded :: brain_graph where
  "negative_seeded = inject_activation (reset_activations negative_graph) empty_stm [''a'']"

definition over_graph :: brain_graph where
  "over_graph = add_node (concept ''x'' 2) empty_graph"

definition r_first :: response_rule where
  "r_first =
     \<lparr>rule_id = ''r_first'', trigger_concepts = [''hello''], intent = ''greet'', priority = 0\<rparr>"

definition r_second :: response_rule where
  "r_second =
     \<lparr>rule_id = ''r_second'', trigger_concepts = [''hello''], intent = ''smalltalk'',
      priority = 0\<rparr>"

definition tie_graph :: brain_graph where
  "tie_graph =
     add_response r_second (add_response r_first
       (seed_node ''hello'' (add_node (concept ''hello'' 0) empty_graph)))"

definition r_ghost_first :: response_rule where
  "r_ghost_first =
     \<lparr>rule_id = ''r_ghost_first'', trigger_concepts = [''ghost''], intent = ''greet'',
      priority = 0\<rparr>"

definition r_ghost_second :: response_rule where
  "r_ghost_second =
     \<lparr>rule_id = ''r_ghost_second'', trigger_concepts = [''ghost''], intent = ''smalltalk'',
      priority = 0\<rparr>"

definition low_tie_graph :: brain_graph where
  "low_tie_graph =
     add_response r_ghost_second (add_response r_ghost_first
       (seed_node ''hello'' (add_node (concept ''hello'' 0) empty_graph)))"

definition r_third :: response_rule where
  "r_third =
     \<lparr>rule_id = ''r_third'', trigger_concepts = [''hello''], intent = ''farewell'',
      priority = 50\<rparr>"

definition third_graph :: brain_graph where
  "third_graph = add_response r_third tie_graph"

definition ranked_graph :: brain_graph where
  "ranked_graph =
     add_node (concept ''delta'' 0.01) (add_node (concept ''beta'' 1)
       (add_node (concept ''gamma'' 0.5) (add_node (concept ''alpha'' 1) empty_graph)))"

definition ep_abc :: episode where
  "ep_abc =
     \<lparr>turn = 1, context_concepts = {''a'', ''b'', ''c''}, outcome_concepts = {},
      reinforcement = 0\<rparr>"

definition ep_ab :: episode where
  "ep_ab =
     \<lparr>turn = 2, context_concepts = {''a'', ''b''}, outcome_concepts = {}, reinforcement = 0\<rparr>"

definition example_memory :: episodic_memory where
  "example_memory = \<lparr>max_episodes = 100, episodes = [ep_abc, ep_ab]\<rparr>"

definition example_stm :: short_term_memory where
  "example_stm =
     add_turn (add_turn empty_stm 1 ''hello'' [''hello''] ''hi'') 2 ''bye'' [''bye''] ''goodbye''"

lemmas graph_defs = add_edge_def add_node_def add_response_def empty_graph_def concept_def
  setdefault_def get_edges_from_def get_node_def

lemmas run_defs = reset_activations_def inject_activation_def get_primed_concepts_def
  empty_stm_def seed_node_def prime_node_def set_activation_def spread_activation_def
  spread_step_def apply_updates_def apply_update_def mod_factor_def default_modulators_def
  edge_delta_def dict_get_def ACTIVATION_THRESHOLD_def

lemmas recall_defs = example_memory_def ep_ab_def ep_abc_def recall_similar_def
  score_episodes_def sort_scored_def jaccard_def slice_to_def slice_bound_def

section \<open>Short-term memory: the recent window\<close>

lemma get_recent_positive:
  "0 < n \<Longrightarrow> get_recent m n = drop (length (buffer m) - nat n) (buffer m)"
  by (auto simp: get_recent_def slice_from_def slice_bound_def Let_def max_def
      nat_diff_distrib' nat_add_distrib)

lemma get_recent_positive_length:
  "0 < n \<Longrightarrow> length (get_recent m n) = min (nat n) (length (buffer m))"
  by (simp add: get_recent_positive)

lemma get_recent_zero: "get_recent m 0 = buffer m"
  by (simp add: get_recent_def slice_from_def slice_bound_def)

text \<open>
  Claim C9. \<^verbatim>\<open>get_recent(n)\<close> is to return the \<open>min n (length buffer)\<close> most recent entries,
  and \<^verbatim>\<open>get_recent(0)\<close> the empty list. For \<open>n \<ge> 1\<close> the slice \<^verbatim>\<open>items[-n:]\<close> does so
  (\<open>get_recent_positive\<close>). For \<open>n = 0\<close> the slice is \<^verbatim>\<open>items[0:]\<close>: after two turns
  \<^verbatim>\<open>get_recent(0)\<close> returns both entries, not none.
\<close>

theorem get_recent_zero_returns_whole_buffer:
  "get_recent example_stm 0 = buffer example_stm
   \<and> length (get_recent example_stm 0) = 2
   \<and> get_recent example_stm 0 \<noteq> []"
  by (simp add: get_recent_def slice_from_def slice_bound_def example_stm_def add_turn_def
      deque_append_def empty_stm_def)

section \<open>Episodic memory: recall\<close>

lemma score_episodes_map: "score_episodes q eps = map (\<lambda>ep. (jaccard q ep, ep)) eps"
proof -
  have "fold (\<lambda>ep scored. scored @ [(jaccard q ep, ep)]) eps acc
        = acc @ map (\<lambda>ep. (jaccard q ep, ep)) eps" for acc
    by (induction eps arbitrary: acc) simp_all
  then show ?thesis by (simp add: score_episodes_def)
qed

lemma scored_consistent:
  "p \<in> set (sort_scored (score_episodes q eps)) \<Longrightarrow> fst p = jaccard q (snd p)"
  by (auto simp: sort_scored_def score_episodes_map)

lemma ranking_keys:
  "map (jaccard q) (map snd (sort_scored (score_episodes q eps)))
   = map fst (sort_scored (score_episodes q eps))"
  by (simp add: scored_consistent)

lemma ranking_sorted:
  "sorted (rev (map (jaccard q) (map snd (sort_scored (score_episodes q eps)))))"
  unfolding ranking_keys by (simp add: sort_scored_def rev_map sorted_sort_key)

lemma ranking_mset:
  "mset (map snd (sort_scored (score_episodes q eps))) = mset eps"
proof -
  have "mset (sort_scored (score_episodes q eps)) = mset (score_episodes q eps)"
    by (simp add: sort_scored_def)
  then have "mset (map snd (sort_scored (score_episodes q eps)))
             = mset (map snd (score_episodes q eps))"
    by (metis mset_map)
  then show ?thesis by (simp add: score_episodes_map comp_def)
qed

lemma ranking_stable:
  "filter (\<lambda>e. jaccard q e = k) (map snd (sort_scored (score_episodes q eps)))
   = filter (\<lambda>e. jaccard q e = k) eps"
proof -
  let ?S = "sort_scored (score_episodes q eps)"
  have "filter (\<lambda>e. jaccard q e = k) (map snd ?S)
        = map snd (filter (\<lambda>p. jaccard q (snd p) = k) ?S)"
    by (simp add: filter_map comp_def)
  also have "filter (\<lambda>p. jaccard q (snd p) = k) ?S = filter (\<lambda>p. fst p = k) ?S"
    by (rule filter_cong) (simp_all add: scored_consistent)
  also have "\<dots> = filter (\<lambda>p. fst p = k) (score_episodes q eps)"
    by (simp add: sort_scored_def rev_filter [symmetric] sort_key_stable)
  also have "map snd \<dots> = filter (\<lambda>e. jaccard q e = k) eps"
    by (simp add: score_episodes_map filter_map comp_def)
  finally show ?thesis .
qed

lemma recall_similar_take:
  "q \<noteq> {} \<Longrightarrow> fst (recall_similar m q top_k) =
     take (slice_bound top_k (episodes m)) (map snd (sort_scored (score_episodes q (episodes m))))"
  by (simp add: recall_similar_def Let_def slice_to_def slice_bound_def take_map sort_scored_def
      score_episodes_map)

lemma example_recall:
  "fst (recall_similar example_memory {''a'', ''b''} 3) = [ep_ab, ep_abc]"
  "jaccard {''a'', ''b''} ep_ab = 1"
  "jaccard {''a'', ''b''} ep_abc = 2 / 3"
  by (simp_all add: recall_defs Let_def card_insert_if)

text \<open>
  Claim C8, as stated, fails for a negative \<open>top_k\<close>: the slice \<^verbatim>\<open>scored[:top_k]\<close> then
  drops the last \<open>- top_k\<close> entries, so with two stored episodes and \<open>top_k = - 1\<close> the call
  returns one episode, which is more than \<open>top_k\<close>.
\<close>

theorem recall_similar_negative_top_k:
  "fst (recall_similar example_memory {''a'', ''b''} (- 1)) = [ep_ab]
   \<and> \<not> int (length (fst (recall_similar example_memory {''a'', ''b''} (- 1)))) \<le> - 1"
  by (simp add: recall_defs Let_def card_insert_if)

text \<open>
  Claim C8, amended to \<open>top_k \<ge> 0\<close>. The result \<open>res\<close> of \<^verbatim>\<open>recall_similar\<close> has at most
  \<open>top_k\<close> episodes (exactly \<open>min top_k (length episodes)\<close> for a non-empty query); it is the
  front part of a rearrangement of the stored episodes that is in descending order of
  Jaccard similarity; episodes of equal similarity keep their storage order (for every
  similarity \<open>s\<close> the episodes of \<open>res\<close> with similarity \<open>s\<close> are a prefix of the stored
  ones with similarity \<open>s\<close>); the result is empty when the query is empty or nothing is
  stored; the similarity is \<open>|intersection| / |union|\<close>, and 0 for an empty union; and
  with the contexts \<open>{a,b,c}\<close> and \<open>{a,b}\<close> stored in this order the query \<open>{a,b}\<close> ranks
  \<open>{a,b}\<close> (similarity 1) above \<open>{a,b,c}\<close> (similarity 2/3).
\<close>

theorem recall_similar_ranking:
  assumes "0 \<le> top_k"
  shows "(let res = fst (recall_similar m q top_k); eps = episodes m in
      length res \<le> nat top_k \<and>
      (q \<noteq> {} \<longrightarrow> length res = min (nat top_k) (length eps)) \<and>
      (\<exists>rest. mset (res @ rest) = mset eps \<and> sorted (rev (map (jaccard q) (res @ rest)))) \<and>
      (\<forall>s. prefix (filter (\<lambda>e. jaccard q e = s) res) (filter (\<lambda>e. jaccard q e = s) eps)) \<and>
      (q = {} \<or> eps = [] \<longrightarrow> res = []))
    \<and> (\<forall>e. jaccard q e =
          (if q \<union> context_concepts e = {} then 0
           else real (card (q \<inter> context_concepts e)) / real (card (q \<union> context_concepts e))))
    \<and> fst (recall_similar example_memory {''a'', ''b''} 3) = [ep_ab, ep_abc]
    \<and> jaccard {''a'', ''b''} ep_ab = 1 \<and> jaccard {''a'', ''b''} ep_abc = 2 / 3"
proof -
  define R where "R = map snd (sort_scored (score_episodes q (episodes m)))"
  define n where "n = slice_bound top_k (episodes m)"
  define res where "res = fst (recall_similar m q top_k)"
  have n: "n = min (nat top_k) (length (episodes m))"
    using assms by (auto simp: n_def slice_bound_def Let_def min_def)
  have lenR: "length R = length (episodes m)"
    by (simp add: R_def sort_scored_def score_episodes_map)
  have res: "res = (if q = {} then [] else take n R)"
    by (simp add: res_def recall_similar_take R_def n_def) (simp add: recall_similar_def)
  have len1: "length res \<le> nat top_k" by (simp add: res n lenR)
  have len2: "q \<noteq> {} \<longrightarrow> length res = min (nat top_k) (length (episodes m))"
    by (simp add: res n lenR)
  have perm: "\<exists>rest. mset (res @ rest) = mset (episodes m)
                \<and> sorted (rev (map (jaccard q) (res @ rest)))"
  proof (intro exI conjI)
    let ?rest = "if q = {} then R else drop n R"
    have eq: "res @ ?rest = R" by (simp add: res)
    show "mset (res @ ?rest) = mset (episodes m)"
      by (simp only: eq) (simp only: R_def ranking_mset)
    show "sorted (rev (map (jaccard q) (res @ ?rest)))"
      by (simp only: eq) (simp only: R_def ranking_sorted)
  qed
  have stab: "prefix (filter (\<lambda>e. jaccard q e = s) res)
                (filter (\<lambda>e. jaccard q e = s) (episodes m))" for s
  proof -
    have "prefix res R" by (simp add: res take_is_prefix)
    then have "prefix (filter (\<lambda>e. jaccard q e = s) res) (filter (\<lambda>e. jaccard q e = s) R)"
      by (rule filter_mono_prefix)
    then show ?thesis by (simp add: R_def ranking_stable)
  qed
  have emp: "q = {} \<or> episodes m = [] \<longrightarrow> res = []"
    by (auto simp: res_def recall_similar_def)
  have jac: "\<forall>e. jaccard q e =
          (if q \<union> context_concepts e = {} then 0
           else real (card (q \<inter> context_concepts e)) / real (card (q \<union> context_concepts e)))"
    by (simp add: jaccard_def Let_def)
  show ?thesis
    using len1 len2 perm stab emp jac example_recall
    unfolding res_def Let_def by blast
qed

theorem recall_similar_ranking_witness:
  "(0::int) \<le> 1 \<and> fst (recall_similar example_memory {''a'', ''b''} 1) = [ep_ab]
   \<and> length (fst (recall_similar example_memory {''a'', ''b''} 1)) \<le> nat 1"
proof -
  have h: "(0::int) \<le> 1" by simp
  have "fst (recall_similar example_memory {''a'', ''b''} 1) = [ep_ab]"
    by (simp add: recall_defs Let_def card_insert_if)
  then show ?thesis
    using recall_similar_ranking [OF h, of example_memory "{''a'', ''b''}"] by (simp add: Let_def)
qed

text \<open>
  Claim C10. \<^verbatim>\<open>recall_similar\<close> is a pure query: the memory after the call is the memory
  before it, so the stored episodes are the same, in the same order, with the same
  context concepts, outcome concepts and reinforcement.
\<close>

theorem recall_similar_pure:
  "snd (recall_similar m q top_k) = m
   \<and> episodes (snd (recall_similar m q top_k)) = episodes m
   \<and> map context_concepts (episodes (snd (recall_similar m q top_k)))
       = map context_concepts (episodes m)
   \<and> map outcome_concepts (episodes (snd (recall_similar m q top_k)))
       = map outcome_concepts (episodes m)
   \<and> map reinforcement (episodes (snd (recall_similar m q top_k)))
       = map reinforcement (episodes m)"
  by (simp add: recall_similar_def Let_def)


section \<open>Spreading: the range of the activations\<close>

lemma set_update_subset: "set (AList.update k v al) \<subseteq> insert (k, v) (set al)"
  by (induction al) auto

lemma in_range_set_activation:
  assumes "activations_in_range g" "0 \<le> a" "a \<le> 1"
  shows "activations_in_range (set_activation k a g)"
proof (cases "get_node g k")
  case None
  with assms show ?thesis by (simp add: set_activation_def)
next
  case (Some n)
  have "set (AList.update k (n\<lparr>activation := a\<rparr>) (nodes g))
        \<subseteq> insert (k, n\<lparr>activation := a\<rparr>) (set (nodes g))"
    by (rule set_update_subset)
  with assms Some show ?thesis
    by (auto simp: set_activation_def activations_in_range_def list_all_iff)
qed

lemma in_range_apply_update: "activations_in_range g \<Longrightarrow> activations_in_range (apply_update u g)"
  by (cases "get_node g (fst u)") (simp_all add: apply_update_def in_range_set_activation)

lemma in_range_apply_updates:
  "activations_in_range g \<Longrightarrow> activations_in_range (apply_updates us g)"
  unfolding apply_updates_def by (induction us arbitrary: g) (simp_all add: in_range_apply_update)

lemma in_range_spread_step:
  "activations_in_range g \<Longrightarrow> activations_in_range (spread_step decay mf s g)"
  by (simp add: spread_step_def Let_def in_range_apply_updates)

lemma in_range_spread_steps:
  "activations_in_range g \<Longrightarrow> activations_in_range (fold (spread_step decay mf) ss g)"
  by (induction ss arbitrary: g) (simp_all add: in_range_spread_step)

lemma in_range_spread_activation:
  "activations_in_range g \<Longrightarrow> activations_in_range (spread_activation g mods steps decay)"
  by (simp add: spread_activation_def Let_def in_range_spread_steps)

lemma in_range_reset:
  "base_activations_in_range g \<Longrightarrow> activations_in_range (reset_activations g)"
  by (auto simp: base_activations_in_range_def activations_in_range_def reset_activations_def
      list_all_iff)

lemma in_range_seed_node: "activations_in_range g \<Longrightarrow> activations_in_range (seed_node c g)"
  by (cases "get_node g c") (simp_all add: seed_node_def in_range_set_activation)

lemma in_range_get_node:
  "activations_in_range g \<Longrightarrow> get_node g k = Some n \<Longrightarrow> 0 \<le> activation n \<and> activation n \<le> 1"
  by (auto simp: activations_in_range_def get_node_def list_all_iff dest!: map_of_SomeD)

lemma in_range_prime_node:
  assumes g: "activations_in_range g"
  shows "activations_in_range (prime_node p g)"
proof (cases "get_node g p")
  case None
  with g show ?thesis by (simp add: prime_node_def)
next
  case (Some n)
  with g have "0 \<le> activation n" using in_range_get_node by blast
  then have "0 \<le> min 1 (activation n + 0.3)" "min 1 (activation n + 0.3) \<le> 1" by simp_all
  with g Some show ?thesis by (simp add: prime_node_def in_range_set_activation)
qed

lemma in_range_inject:
  assumes "activations_in_range g"
  shows "activations_in_range (inject_activation g stm seeds)"
proof -
  have s: "activations_in_range h \<Longrightarrow> activations_in_range (fold seed_node cs h)" for cs h
    by (induction cs arbitrary: h) (simp_all add: in_range_seed_node)
  have p: "activations_in_range h \<Longrightarrow> activations_in_range (fold prime_node ps h)" for ps h
    by (induction ps arbitrary: h) (simp_all add: in_range_prime_node)
  from assms show ?thesis
    by (simp add: inject_activation_def Let_def s p)
qed

section \<open>Spreading: what one step does to a node\<close>

lemma get_node_set_activation:
  "get_node (set_activation k a g) k' =
     (if k' = k then map_option (\<lambda>n. n\<lparr>activation := a\<rparr>) (get_node g k) else get_node g k')"
  by (cases "get_node g k") (auto simp: set_activation_def get_node_def update_conv')

lemma get_node_apply_update:
  "get_node (apply_update (k, d) g) k' =
     (if k' = k
      then map_option (\<lambda>n. n\<lparr>activation := max 0 (min 1 (activation n + d))\<rparr>) (get_node g k)
      else get_node g k')"
  by (cases "get_node g k") (auto simp: apply_update_def get_node_set_activation)

lemma get_node_apply_updates:
  "distinct (map fst us) \<Longrightarrow>
   get_node (apply_updates us g) k =
     map_option (\<lambda>n. n\<lparr>activation :=
        (case map_of us k of None \<Rightarrow> activation n
         | Some d \<Rightarrow> max 0 (min 1 (activation n + d)))\<rparr>)
       (get_node g k)"
proof (induction us arbitrary: g)
  case Nil
  show ?case by (simp add: apply_updates_def option.map_ident)
next
  case (Cons u us)
  obtain k' d where u: "u = (k', d)" by (cases u)
  from Cons.prems u have d: "distinct (map fst us)" and nin: "k' \<notin> fst ` set us" by auto
  have "get_node (apply_updates (u # us) g) k
        = get_node (apply_updates us (apply_update (k', d) g)) k"
    by (simp add: apply_updates_def u)
  also have "\<dots> = map_option (\<lambda>n. n\<lparr>activation :=
        (case map_of us k of None \<Rightarrow> activation n
         | Some d \<Rightarrow> max 0 (min 1 (activation n + d)))\<rparr>)
       (get_node (apply_update (k', d) g) k)"
    by (rule Cons.IH [OF d])
  also have "\<dots> = map_option (\<lambda>n. n\<lparr>activation :=
        (case map_of (u # us) k of None \<Rightarrow> activation n
         | Some d \<Rightarrow> max 0 (min 1 (activation n + d)))\<rparr>)
       (get_node g k)"
  proof (cases "k = k'")
    case True
    with nin have "map_of us k = None" by (simp add: map_of_eq_None_iff)
    with True show ?thesis
      by (simp add: u get_node_apply_update option.map_comp comp_def)
  next
    case False
    then show ?thesis by (simp add: u get_node_apply_update)
  qed
  finally show ?case .
qed

lemma dict_get_update:
  "dict_get (AList.update k' v u) k dflt = (if k = k' then v else dict_get u k dflt)"
  by (simp add: dict_get_def update_conv')

lemma scan_edges_lookup:
  "map_of (scan_edges g n df mf es u) k =
     (if deltas_into g df mf k n es = [] then map_of u k
      else Some (dict_get u k 0 + sum_list (deltas_into g df mf k n es)))"
proof (induction es arbitrary: u)
  case Nil
  show ?case by (simp add: deltas_into_def)
next
  case (Cons e es)
  show ?case
  proof (cases "get_node g (target e)")
    case None
    then show ?thesis using Cons.IH [of u] by (simp add: deltas_into_def)
  next
    case (Some t)
    let ?u' = "AList.update (target e)
                 (dict_get u (target e) 0 + edge_delta (activation n) e df mf) u"
    have run: "scan_edges g n df mf (e # es) u = scan_edges g n df mf es ?u'"
      using Some by simp
    show ?thesis
    proof (cases "target e = k")
      case True
      have i: "deltas_into g df mf k n (e # es)
               = edge_delta (activation n) e df mf # deltas_into g df mf k n es"
        using True Some by (simp add: deltas_into_def)
      show ?thesis unfolding run Cons.IH [of ?u'] i
        using True by (simp add: update_conv' dict_get_update)
    next
      case False
      have i: "deltas_into g df mf k n (e # es) = deltas_into g df mf k n es"
        using False by (simp add: deltas_into_def)
      show ?thesis unfolding run Cons.IH [of ?u'] i
        using False by (simp add: update_conv' dict_get_update)
    qed
  qed
qed

lemma scan_edges_dict_get:
  "dict_get (scan_edges g n df mf es u) k 0
   = dict_get u k 0 + sum_list (deltas_into g df mf k n es)"
  by (simp add: dict_get_def [of "scan_edges g n df mf es u"] scan_edges_lookup)
     (simp add: dict_get_def)

lemma scan_nodes_lookup:
  "map_of (scan_nodes g df mf ns u) k =
     (if emitted_into g df mf k ns = [] then map_of u k
      else Some (dict_get u k 0 + sum_list (emitted_into g df mf k ns)))"
proof (induction ns arbitrary: u)
  case Nil
  show ?case by (simp add: emitted_into_def)
next
  case (Cons n ns)
  show ?case
  proof (cases "activation n \<le> ACTIVATION_THRESHOLD")
    case True
    then have i: "emitted_into g df mf k (n # ns) = emitted_into g df mf k ns"
      by (simp add: emitted_into_def)
    have run: "scan_nodes g df mf (n # ns) u = scan_nodes g df mf ns u"
      using True by simp
    show ?thesis unfolding run i by (rule Cons.IH)
  next
    case False
    let ?u' = "scan_edges g n df mf (get_edges_from g (node_id n)) u"
    have run: "scan_nodes g df mf (n # ns) u = scan_nodes g df mf ns ?u'"
      using False by simp
    have i: "emitted_into g df mf k (n # ns)
             = deltas_into g df mf k n (get_edges_from g (node_id n)) @ emitted_into g df mf k ns"
      using False by (simp add: emitted_into_def)
    show ?thesis unfolding run Cons.IH [of ?u'] i
      by (simp add: scan_edges_lookup scan_edges_dict_get)
  qed
qed

lemma scan_lookup:
  "map_of (scan_nodes g df mf ns []) k =
     (if emitted_into g df mf k ns = [] then None else Some (sum_list (emitted_into g df mf k ns)))"
  by (simp add: scan_nodes_lookup dict_get_def)

lemma distinct_scan_edges:
  "distinct (map fst u) \<Longrightarrow> distinct (map fst (scan_edges g n df mf es u))"
  by (induction es arbitrary: u) (auto simp: distinct_update split: option.splits)

lemma distinct_scan_nodes:
  "distinct (map fst u) \<Longrightarrow> distinct (map fst (scan_nodes g df mf ns u))"
  by (induction ns arbitrary: u) (auto simp: distinct_scan_edges)

lemma spread_step_node:
  "get_node (spread_step decay mf s g) k =
     map_option (\<lambda>n. n\<lparr>activation :=
        (if emitted_into g (decay ^ s) mf k (map snd (nodes g)) = [] then activation n
         else max 0 (min 1 (activation n
                + sum_list (emitted_into g (decay ^ s) mf k (map snd (nodes g))))))\<rparr>)
       (get_node g k)"
proof -
  let ?u = "scan_nodes g (decay ^ s) mf (map snd (nodes g)) []"
  have "distinct (map fst ?u)" by (rule distinct_scan_nodes) simp
  then have "get_node (apply_updates ?u g) k =
     map_option (\<lambda>n. n\<lparr>activation :=
        (case map_of ?u k of None \<Rightarrow> activation n
         | Some d \<Rightarrow> max 0 (min 1 (activation n + d)))\<rparr>)
       (get_node g k)"
    by (rule get_node_apply_updates)
  then show ?thesis
    by (simp add: spread_step_def Let_def scan_lookup cong: if_cong)
qed


section \<open>Spreading: the scenarios\<close>

text \<open>
  Claim C1, as stated, fails. The first step has index 0, so its decay factor is
  \<open>0.8 ^ 0 = 1\<close>: after seeding \<open>hello\<close> and one step, \<open>greeting\<close> is at \<open>1 * 0.9 * 1 = 0.9\<close>,
  which is not within 0.1 of 0.72.
\<close>

theorem one_step_greeting_is_not_072:
  "activation_of (spread_activation hello_seeded default_modulators 1 0.8) ''greeting''
     = Some (9 / 10)
   \<and> \<not> \<bar>9 / 10 - 0.72\<bar> \<le> (0.1 :: real)"
  by (simp add: activation_of_def hello_seeded_def hello_graph_def graph_defs run_defs Let_def)

text \<open>
  Claim C1, amended. For the graph with the nodes \<open>hello\<close> and \<open>greeting\<close> (base
  activation 0), the excitatory edge from \<open>hello\<close> to \<open>greeting\<close> of weight 0.9 and all
  modulators at 1: seeding \<open>hello\<close> and running exactly one spreading step, with decay 0.8
  or any other decay \<open>d\<close>, leaves \<open>greeting\<close> at 0.9 and \<open>hello\<close> at exactly 1.
\<close>

theorem one_step_hello_greeting:
  "activation_of (spread_activation hello_seeded default_modulators 1 d) ''greeting''
     = Some 0.9
   \<and> activation_of (spread_activation hello_seeded default_modulators 1 d) ''hello'' = Some 1
   \<and> activation_of hello_seeded ''hello'' = Some 1
   \<and> activation_of hello_seeded ''greeting'' = Some 0
   \<and> mod_factor default_modulators = 1"
  by (simp add: activation_of_def hello_seeded_def hello_graph_def graph_defs run_defs Let_def)

text \<open>
  Claim C2, as stated, fails. The excitatory branch multiplies by the stored weight
  itself: the excitatory edge from \<open>a\<close> to \<open>b\<close> of weight \<open>- 0.5\<close>, with \<open>a\<close> seeded and all
  modulators at 1, sends the delta \<open>- 0.5\<close> into \<open>b\<close> at the first step, which is negative.
  The sign also follows the modulator multiplier, which scales every delta: with the
  modulators \<open>- 1\<close> and \<open>1\<close> the inhibitory edge of weight 0.4 contributes \<open>+ 0.2\<close>.
\<close>

theorem excitatory_negative_weight_delta:
  "scan_nodes negative_seeded (0.8 ^ 0) (mod_factor default_modulators)
     (map snd (nodes negative_seeded)) [] = [(''b'', - 0.5)]
   \<and> edge_delta 1 negative_edge (0.8 ^ 0) (mod_factor default_modulators) = - 0.5
   \<and> edge_type negative_edge = ''excitatory''
   \<and> \<not> 0 \<le> edge_delta 1 negative_edge (0.8 ^ 0) (mod_factor default_modulators)
   \<and> edge_type fear_edge = ''inhibitory''
   \<and> edge_delta 1 fear_edge (0.8 ^ 0) (mod_factor [(''curiosity'', - 1), (''urgency'', 1)])
       = 0.2
   \<and> \<not> edge_delta 1 fear_edge (0.8 ^ 0) (mod_factor [(''curiosity'', - 1), (''urgency'', 1)])
         \<le> 0"
  by (simp add: negative_seeded_def negative_graph_def negative_edge_def fear_edge_def
      graph_defs run_defs Let_def)

text \<open>
  Claim C2, amended. For an edge that is not excitatory (an inhibitory one) the stored
  weight is read as a magnitude: the delta is the same for the weight, its negation and
  its absolute value, and for an emitting source (activation above the threshold) and a
  non-negative modulator multiplier it is never positive. For an excitatory edge whose
  stored weight is non-negative, with a non-negative decay factor and modulator
  multiplier, the delta of an emitting source is never negative.
\<close>

theorem edge_delta_sign:
  "(edge_type e \<noteq> ''excitatory'' \<longrightarrow>
      edge_delta act e df mf = edge_delta act (e\<lparr>weight := \<bar>weight e\<bar>\<rparr>) df mf \<and>
      edge_delta act e df mf = edge_delta act (e\<lparr>weight := - weight e\<rparr>) df mf)
   \<and> (edge_type e \<noteq> ''excitatory'' \<and> ACTIVATION_THRESHOLD < act \<and> 0 \<le> mf \<longrightarrow>
        edge_delta act e df mf \<le> 0)
   \<and> (edge_type e = ''excitatory'' \<and> ACTIVATION_THRESHOLD < act \<and> 0 \<le> weight e
        \<and> 0 \<le> df \<and> 0 \<le> mf \<longrightarrow>
        0 \<le> edge_delta act e df mf)"
proof (intro conjI impI)
  assume "edge_type e \<noteq> ''excitatory''"
  then show "edge_delta act e df mf = edge_delta act (e\<lparr>weight := \<bar>weight e\<bar>\<rparr>) df mf"
    and "edge_delta act e df mf = edge_delta act (e\<lparr>weight := - weight e\<rparr>) df mf"
    by (simp_all add: edge_delta_def)
next
  assume a: "edge_type e \<noteq> ''excitatory'' \<and> ACTIVATION_THRESHOLD < act \<and> 0 \<le> mf"
  then have "0 \<le> act" by (simp add: ACTIVATION_THRESHOLD_def)
  then have "0 \<le> act * \<bar>weight e\<bar> * 0.5" by simp
  then have "- (act * \<bar>weight e\<bar> * 0.5) * mf \<le> 0"
    using a by (simp add: mult_nonneg_nonneg)
  with a show "edge_delta act e df mf \<le> 0" by (simp add: edge_delta_def)
next
  assume a: "edge_type e = ''excitatory'' \<and> ACTIVATION_THRESHOLD < act \<and> 0 \<le> weight e
        \<and> 0 \<le> df \<and> 0 \<le> mf"
  then have "0 \<le> act" by (simp add: ACTIVATION_THRESHOLD_def)
  with a have "0 \<le> act * weight e * df * mf" by simp
  with a show "0 \<le> edge_delta act e df mf" by (simp add: edge_delta_def)
qed

theorem edge_delta_sign_witness:
  "edge_type fear_edge \<noteq> ''excitatory'' \<and> ACTIVATION_THRESHOLD < (1::real) \<and> (0::real) \<le> 1
   \<and> edge_delta 1 fear_edge 1 1 \<le> 0
   \<and> edge_delta 1 fear_edge 1 1 = edge_delta 1 (fear_edge\<lparr>weight := - weight fear_edge\<rparr>) 1 1
   \<and> edge_type (negative_edge\<lparr>weight := 0.5\<rparr>) = ''excitatory''
   \<and> (0::real) \<le> weight (negative_edge\<lparr>weight := 0.5\<rparr>)
   \<and> 0 \<le> edge_delta 1 (negative_edge\<lparr>weight := 0.5\<rparr>) 1 1"
  using edge_delta_sign [of fear_edge 1 1 1]
    edge_delta_sign [of "negative_edge\<lparr>weight := 0.5\<rparr>" 1 1 1]
  by (simp add: fear_edge_def negative_edge_def ACTIVATION_THRESHOLD_def)

text \<open>
  Claim C3. An inhibitory edge contributes \<open>- (source activation * |weight| * 0.5)\<close> times
  the modulator multiplier, whatever the decay and the step index \<open>s\<close>; this delta is
  among those the step sends into the target whenever the source emits and the target
  exists. With \<open>fear\<close> seeded to 1, the inhibitory edge from \<open>fear\<close> to \<open>calm\<close> of weight 0.4
  and all modulators at 1, the delta collected for \<open>calm\<close> is exactly \<open>- 0.2\<close> at every
  step index, for every decay and whatever activation \<open>c\<close> the node \<open>calm\<close> has reached.
\<close>

theorem inhibitory_delta:
  "(edge_type e = ''inhibitory'' \<longrightarrow>
      edge_delta act e (decay ^ s) mf = - (act * \<bar>weight e\<bar> * 0.5) * mf)
   \<and> (edge_type e = ''inhibitory'' \<and> n \<in> set (map snd (nodes g))
        \<and> activation n > ACTIVATION_THRESHOLD \<and> e \<in> set (get_edges_from g (node_id n))
        \<and> get_node g (target e) \<noteq> None \<longrightarrow>
        - (activation n * \<bar>weight e\<bar> * 0.5) * mf
          \<in> set (emitted_into g (decay ^ s) mf (target e) (map snd (nodes g))))
   \<and> scan_nodes (set_activation ''calm'' c fear_seeded) (decay ^ s)
        (mod_factor default_modulators)
        (map snd (nodes (set_activation ''calm'' c fear_seeded))) [] = [(''calm'', - 0.2)]
   \<and> activation_of (set_activation ''calm'' c fear_seeded) ''fear'' = Some 1"
proof (intro conjI impI)
  assume "edge_type e = ''inhibitory''"
  then show "edge_delta act e (decay ^ s) mf = - (act * \<bar>weight e\<bar> * 0.5) * mf"
    by (simp add: edge_delta_def)
next
  assume a: "edge_type e = ''inhibitory'' \<and> n \<in> set (map snd (nodes g))
        \<and> activation n > ACTIVATION_THRESHOLD \<and> e \<in> set (get_edges_from g (node_id n))
        \<and> get_node g (target e) \<noteq> None"
  then have d: "edge_delta (activation n) e (decay ^ s) mf
                = - (activation n * \<bar>weight e\<bar> * 0.5) * mf"
    by (simp add: edge_delta_def)
  have "edge_delta (activation n) e (decay ^ s) mf
        \<in> set (deltas_into g (decay ^ s) mf (target e) n (get_edges_from g (node_id n)))"
    using a by (auto simp: deltas_into_def)
  then have "edge_delta (activation n) e (decay ^ s) mf
        \<in> set (emitted_into g (decay ^ s) mf (target e) (map snd (nodes g)))"
    using a unfolding emitted_into_def set_concat by (auto intro!: bexI [of _ n])
  with d show "- (activation n * \<bar>weight e\<bar> * 0.5) * mf
          \<in> set (emitted_into g (decay ^ s) mf (target e) (map snd (nodes g)))"
    by simp
next
  show "scan_nodes (set_activation ''calm'' c fear_seeded) (decay ^ s)
        (mod_factor default_modulators)
        (map snd (nodes (set_activation ''calm'' c fear_seeded))) [] = [(''calm'', - 0.2)]"
    by (simp add: fear_seeded_def fear_graph_def fear_edge_def graph_defs run_defs Let_def)
  show "activation_of (set_activation ''calm'' c fear_seeded) ''fear'' = Some 1"
    by (simp add: activation_of_def fear_seeded_def fear_graph_def fear_edge_def graph_defs
        run_defs Let_def)
qed

theorem inhibitory_delta_witness:
  "edge_type fear_edge = ''inhibitory''
   \<and> edge_delta 1 fear_edge (0.8 ^ 2) 1 = - 0.2
   \<and> activation_of (spread_step 0.8 (mod_factor default_modulators) 2 fear_seeded) ''calm''
       = Some 0.3"
proof -
  have "activation_of (spread_step 0.8 (mod_factor default_modulators) 2 fear_seeded) ''calm''
       = Some 0.3"
    by (simp add: activation_of_def fear_seeded_def fear_graph_def fear_edge_def graph_defs
        run_defs Let_def)
  then show ?thesis
    using inhibitory_delta [of fear_edge 1 "0.8" 2 1]
    by (simp add: fear_edge_def)
qed

text \<open>
  Claim C4, as stated, fails. Only a node that receives a delta is clamped. A graph
  whose single node \<open>x\<close> has the base activation 2, with no seed, no priming and the
  default modulators, still has \<open>x\<close> at 2 after three steps with decay 0.8.
\<close>

theorem unclamped_base_activation:
  "activation_of
     (spread_activation (inject_activation (reset_activations over_graph) empty_stm [])
        default_modulators 3 0.8) ''x'' = Some 2
   \<and> \<not> activations_in_range
       (spread_activation (inject_activation (reset_activations over_graph) empty_stm [])
          default_modulators 3 0.8)"
  by (simp add: activation_of_def over_graph_def graph_defs run_defs Let_def
      activations_in_range_def upt_rec [of 0] numeral_3_eq_3)

text \<open>
  Claim C4, amended. If every activation lies within [0, 1] when the spreading starts,
  it does so after every number of steps, for every modulator table and decay; this is the
  case after reset, seeding and priming when every base activation lies within [0, 1].
  In one step, a node into which no emitting node sends a delta keeps its activation, and
  any other node gets its activation plus the sum of the deltas sent into it, clamped
  to [0, 1]; these deltas are computed from the activations the graph had when the step
  started.
\<close>

theorem spreading_keeps_range:
  "(activations_in_range g \<longrightarrow> activations_in_range (spread_activation g mods steps decay))
   \<and> (base_activations_in_range g \<longrightarrow>
        activations_in_range
          (spread_activation (inject_activation (reset_activations g) stm seeds) mods steps decay))
   \<and> get_node (spread_step decay mf s g) k =
       map_option (\<lambda>n. n\<lparr>activation :=
          (if emitted_into g (decay ^ s) mf k (map snd (nodes g)) = [] then activation n
           else max 0 (min 1 (activation n
                  + sum_list (emitted_into g (decay ^ s) mf k (map snd (nodes g))))))\<rparr>)
         (get_node g k)"
  by (simp add: in_range_spread_activation in_range_inject in_range_reset spread_step_node)

theorem spreading_keeps_range_witness:
  "base_activations_in_range hello_graph
   \<and> activations_in_range hello_seeded
   \<and> activations_in_range (spread_activation hello_seeded default_modulators 3 0.8)
   \<and> activation_of (spread_step 0.8 1 1 hello_seeded) ''greeting'' = Some 0.72"
proof -
  have b: "base_activations_in_range hello_graph"
    by (simp add: base_activations_in_range_def hello_graph_def graph_defs)
  have s: "activations_in_range hello_seeded"
    by (simp add: activations_in_range_def hello_seeded_def hello_graph_def graph_defs run_defs
        Let_def)
  have e: "emitted_into hello_seeded (4 / 5) 1 ''greeting'' (map snd (nodes hello_seeded))
           = [18 / 25]"
    by (simp add: emitted_into_def deltas_into_def hello_seeded_def hello_graph_def
        graph_defs run_defs Let_def)
  have n: "get_node hello_seeded ''greeting'' = Some (concept ''greeting'' 0)"
    by (simp add: hello_seeded_def hello_graph_def graph_defs run_defs Let_def)
  show ?thesis
    using spreading_keeps_range [of hello_seeded default_modulators 3 "0.8" empty_stm "[]"
        1 1 "''greeting''"]
      spreading_keeps_range [of hello_graph default_modulators 3 "0.8" empty_stm "[''hello'']"
        1 1 "''hello''"]
    by (simp add: b s e n activation_of_def concept_def hello_seeded_def [symmetric])
qed


section \<open>Response selection\<close>

lemma trigger_sum_sum_list:
  "trigger_sum g cs = (\<Sum>c\<leftarrow>cs. (case get_node g c of None \<Rightarrow> 0 | Some n \<Rightarrow> activation n))"
proof -
  have "fold (\<lambda>c acc. acc + (case get_node g c of None \<Rightarrow> 0 | Some n \<Rightarrow> activation n)) cs a
        = a + (\<Sum>c\<leftarrow>cs. (case get_node g c of None \<Rightarrow> 0 | Some n \<Rightarrow> activation n))" for a
    by (induction cs arbitrary: a) (simp_all add: add.assoc)
  then show ?thesis by (simp add: trigger_sum_def)
qed

text \<open>
  The loop, from any starting pair: either no rule improved on the starting score, or the
  winner is the first rule that attains the highest score.
\<close>

lemma scan_rules_char:
  "scan_rules g rules (b, s) = (b', s') \<Longrightarrow>
     (b' = b \<and> s' = s \<and> (\<forall>r\<in>set rules. rule_score g r \<le> s))
   \<or> (\<exists>i<length rules. b' = Some (rules ! i) \<and> s' = rule_score g (rules ! i) \<and> s < s'
        \<and> (\<forall>j<i. rule_score g (rules ! j) < s')
        \<and> (\<forall>j<length rules. rule_score g (rules ! j) \<le> s'))"
proof (induction rules arbitrary: b s)
  case Nil
  then show ?case by simp
next
  case (Cons r rs)
  show ?case
  proof (cases "rule_score g r > s")
    case True
    with Cons.prems have run: "scan_rules g rs (Some r, rule_score g r) = (b', s')"
      by (simp add: Let_def)
    from Cons.IH [OF run] show ?thesis
    proof (elim disjE exE conjE)
      assume a: "b' = Some r" "s' = rule_score g r"
        "\<forall>x\<in>set rs. rule_score g x \<le> rule_score g r"
      have "\<forall>j<length (r # rs). rule_score g ((r # rs) ! j) \<le> s'"
        using a by (auto simp: nth_Cons split: nat.splits)
      with a True show ?thesis
        by (intro disjI2 exI [of _ 0]) simp
    next
      fix i
      assume a: "i < length rs" "b' = Some (rs ! i)" "s' = rule_score g (rs ! i)"
        "rule_score g r < s'" "\<forall>j<i. rule_score g (rs ! j) < s'"
        "\<forall>j<length rs. rule_score g (rs ! j) \<le> s'"
      have 1: "\<forall>j<Suc i. rule_score g ((r # rs) ! j) < s'"
        using a by (auto simp: nth_Cons split: nat.splits)
      have 2: "\<forall>j<length (r # rs). rule_score g ((r # rs) ! j) \<le> s'"
        using a by (auto simp: nth_Cons split: nat.splits)
      from a True 1 2 show ?thesis
        by (intro disjI2 exI [of _ "Suc i"]) simp
    qed
  next
    case False
    with Cons.prems have run: "scan_rules g rs (b, s) = (b', s')"
      by (simp add: Let_def)
    from Cons.IH [OF run] show ?thesis
    proof (elim disjE exE conjE)
      assume "b' = b" "s' = s" "\<forall>x\<in>set rs. rule_score g x \<le> s"
      with False show ?thesis by auto
    next
      fix i
      assume a: "i < length rs" "b' = Some (rs ! i)" "s' = rule_score g (rs ! i)"
        "s < s'" "\<forall>j<i. rule_score g (rs ! j) < s'"
        "\<forall>j<length rs. rule_score g (rs ! j) \<le> s'"
      have 1: "\<forall>j<Suc i. rule_score g ((r # rs) ! j) < s'"
        using a False by (auto simp: nth_Cons split: nat.splits)
      have 2: "\<forall>j<length (r # rs). rule_score g ((r # rs) ! j) \<le> s'"
        using a False by (auto simp: nth_Cons split: nat.splits)
      from a 1 2 show ?thesis
        by (intro disjI2 exI [of _ "Suc i"]) simp
    qed
  qed
qed

lemma scan_rules_initial:
  "(fst (scan_rules g rs (None, - 1)) = None \<and> snd (scan_rules g rs (None, - 1)) = - 1
      \<and> (\<forall>r\<in>set rs. rule_score g r \<le> - 1))
   \<or> (\<exists>i<length rs. fst (scan_rules g rs (None, - 1)) = Some (rs ! i)
        \<and> snd (scan_rules g rs (None, - 1)) = rule_score g (rs ! i)
        \<and> - 1 < rule_score g (rs ! i)
        \<and> (\<forall>j<i. rule_score g (rs ! j) < rule_score g (rs ! i))
        \<and> (\<forall>j<length rs. rule_score g (rs ! j) \<le> rule_score g (rs ! i)))"
  using scan_rules_char [of g rs None "- 1" "fst (scan_rules g rs (None, - 1))"
      "snd (scan_rules g rs (None, - 1))"]
  by auto

lemma least_max_unique:
  fixes f :: "nat \<Rightarrow> real"
  assumes "i < n" "\<forall>j<i. f j < f i" "\<forall>j<n. f j \<le> f i"
    and "i' < n" "\<forall>j<i'. f j < f i'" "\<forall>j<n. f j \<le> f i'"
  shows "i = i'"
proof (rule ccontr)
  assume "i \<noteq> i'"
  then consider "i < i'" | "i' < i" by linarith
  then show False
  proof cases
    case 1
    then have "f i < f i'" using assms by blast
    moreover have "f i' \<le> f i" using assms by blast
    ultimately show False by simp
  next
    case 2
    then have "f i' < f i" using assms by blast
    moreover have "f i \<le> f i'" using assms by blast
    ultimately show False by simp
  qed
qed

lemma scan_rules_winner:
  assumes "i < length rs" "\<forall>j<i. rule_score g (rs ! j) < rule_score g (rs ! i)"
    "\<forall>j<length rs. rule_score g (rs ! j) \<le> rule_score g (rs ! i)"
    "- 1 < rule_score g (rs ! i)"
  shows "scan_rules g rs (None, - 1) = (Some (rs ! i), rule_score g (rs ! i))"
proof -
  from scan_rules_initial [of g rs] show ?thesis
  proof (elim disjE exE conjE)
    assume "\<forall>r\<in>set rs. rule_score g r \<le> - 1"
    with assms(1,4) show ?thesis by (metis nth_mem not_less)
  next
    fix i'
    assume a: "i' < length rs" "fst (scan_rules g rs (None, - 1)) = Some (rs ! i')"
      "snd (scan_rules g rs (None, - 1)) = rule_score g (rs ! i')"
      "\<forall>j<i'. rule_score g (rs ! j) < rule_score g (rs ! i')"
      "\<forall>j<length rs. rule_score g (rs ! j) \<le> rule_score g (rs ! i')"
    have "i = i'"
      using least_max_unique [of i "length rs" "\<lambda>j. rule_score g (rs ! j)" i']
        assms(1-3) a(1,4,5)
      by blast
    with a(2,3) show ?thesis by (simp add: prod_eq_iff)
  qed
qed

lemma rule_score_fallback: "rule_score g fallback_rule = 0"
  by (simp add: rule_score_def fallback_rule_def trigger_sum_def)

lemma select_response_cases:
  "(fst (select_response g tr) = fallback_rule
      \<and> (\<forall>r\<in>set (responses g). rule_score g r < ACTIVATION_THRESHOLD))
   \<or> (\<exists>i<length (responses g). fst (select_response g tr) = responses g ! i
        \<and> ACTIVATION_THRESHOLD \<le> rule_score g (responses g ! i)
        \<and> (\<forall>j<i. rule_score g (responses g ! j) < rule_score g (responses g ! i))
        \<and> (\<forall>j<length (responses g).
              rule_score g (responses g ! j) \<le> rule_score g (responses g ! i)))"
proof -
  from scan_rules_initial [of g "responses g"] show ?thesis
  proof (elim disjE exE conjE)
    assume a: "fst (scan_rules g (responses g) (None, - 1)) = None"
      "\<forall>r\<in>set (responses g). rule_score g r \<le> - 1"
    have "fst (select_response g tr) = fallback_rule"
      using a(1) by (simp add: select_response_def Let_def case_prod_beta)
    moreover have "\<forall>r\<in>set (responses g). rule_score g r < ACTIVATION_THRESHOLD"
      using a(2) by (fastforce simp: ACTIVATION_THRESHOLD_def)
    ultimately show ?thesis by blast
  next
    fix i
    assume a: "i < length (responses g)"
      "fst (scan_rules g (responses g) (None, - 1)) = Some (responses g ! i)"
      "snd (scan_rules g (responses g) (None, - 1)) = rule_score g (responses g ! i)"
      "\<forall>j<i. rule_score g (responses g ! j) < rule_score g (responses g ! i)"
      "\<forall>j<length (responses g). rule_score g (responses g ! j) \<le> rule_score g (responses g ! i)"
    show ?thesis
    proof (cases "rule_score g (responses g ! i) < ACTIVATION_THRESHOLD")
      case True
      then have "fst (select_response g tr) = fallback_rule"
        using a(2,3) by (simp add: select_response_def Let_def case_prod_beta)
      moreover have "\<forall>r\<in>set (responses g). rule_score g r < ACTIVATION_THRESHOLD"
        using a(5) True by (metis in_set_conv_nth le_less_trans)
      ultimately show ?thesis by blast
    next
      case False
      then have "fst (select_response g tr) = responses g ! i"
        using a(2,3) by (simp add: select_response_def Let_def case_prod_beta)
      with a False show ?thesis by (intro disjI2 exI [of _ i]) simp
    qed
  qed
qed

lemma tie_graph_eval:
  "responses tie_graph = [r_first, r_second]"
  "rule_score tie_graph r_first = 1"
  "rule_score tie_graph r_second = 1"
  by (simp_all add: tie_graph_def graph_defs seed_node_def set_activation_def
      r_first_def r_second_def rule_score_def trigger_sum_def)

text \<open>
  Claim C5, as stated, fails. Of two rules with exactly equal scores the earlier one is
  not always the one returned. Two rules that both trigger on \<open>ghost\<close>, which is no node,
  with priority 0 both score 0: the second does not replace the first, but 0 is below the
  threshold 0.05 and the fallback rule is returned. And when a third rule scores higher
  than two tied rules (here 1.5 against 1 and 1), the third rule is returned.
\<close>

theorem tied_rules_earlier_not_returned:
  "responses low_tie_graph = [r_ghost_first, r_ghost_second]
   \<and> rule_score low_tie_graph r_ghost_first = 0
   \<and> rule_score low_tie_graph r_ghost_second = 0
   \<and> fst (scan_rules low_tie_graph (responses low_tie_graph) (None, - 1)) = Some r_ghost_first
   \<and> fst (select_response low_tie_graph empty_trace) = fallback_rule
   \<and> fst (select_response low_tie_graph empty_trace) \<noteq> r_ghost_first
   \<and> responses third_graph = [r_first, r_second, r_third]
   \<and> rule_score third_graph r_first = 1
   \<and> rule_score third_graph r_second = 1
   \<and> rule_score third_graph r_third = 3 / 2
   \<and> fst (select_response third_graph empty_trace) = r_third
   \<and> fst (select_response third_graph empty_trace) \<noteq> r_first"
  by (simp add: low_tie_graph_def third_graph_def tie_graph_def graph_defs seed_node_def
      set_activation_def r_ghost_first_def r_ghost_second_def r_first_def r_second_def
      r_third_def rule_score_def trigger_sum_def select_response_def fallback_rule_def
      ACTIVATION_THRESHOLD_def Let_def)

text \<open>
  Claim C5, amended. The score of a rule is the sum of the activations of its trigger
  concepts (0 for a concept that is no node) plus \<open>priority * 0.01\<close>; \<^verbatim>\<open>add_response\<close>
  appends, and the rules are scanned in this order; a rule replaces the best one only when
  its score is strictly higher. Hence the first rule that attains the highest score wins:
  if no earlier rule scores as much as rule \<open>i\<close> and no rule scores more, the loop ends
  with rule \<open>i\<close> (when its score is above the starting score \<open>- 1\<close>) and rule \<open>i\<close> is
  returned (when its score reaches the threshold); and every rule that is returned, the
  fallback apart, is such a first rule. So of the rules tied for the highest score, when
  that score reaches the threshold, the one inserted earliest is the one returned.
\<close>

theorem select_response_earliest_tie:
  "rule_score g r =
     (\<Sum>c\<leftarrow>trigger_concepts r. (case get_node g c of None \<Rightarrow> 0 | Some n \<Rightarrow> activation n))
       + real_of_int (priority r) * 0.01
   \<and> responses (add_response r g) = responses g @ [r]
   \<and> (\<forall>i<length (responses g).
        (\<forall>j<i. rule_score g (responses g ! j) < rule_score g (responses g ! i)) \<and>
        (\<forall>j<length (responses g).
            rule_score g (responses g ! j) \<le> rule_score g (responses g ! i)) \<longrightarrow>
        (- 1 < rule_score g (responses g ! i) \<longrightarrow>
           scan_rules g (responses g) (None, - 1)
             = (Some (responses g ! i), rule_score g (responses g ! i))) \<and>
        (ACTIVATION_THRESHOLD \<le> rule_score g (responses g ! i) \<longrightarrow>
           fst (select_response g tr) = responses g ! i))
   \<and> (fst (select_response g tr) \<noteq> fallback_rule \<longrightarrow>
        (\<exists>i<length (responses g). fst (select_response g tr) = responses g ! i \<and>
           (\<forall>j<i. rule_score g (responses g ! j) < rule_score g (responses g ! i)) \<and>
           (\<forall>j<length (responses g).
               rule_score g (responses g ! j) \<le> rule_score g (responses g ! i))))"
proof (intro conjI allI impI)
  show "rule_score g r =
     (\<Sum>c\<leftarrow>trigger_concepts r. (case get_node g c of None \<Rightarrow> 0 | Some n \<Rightarrow> activation n))
       + real_of_int (priority r) * 0.01"
    by (simp add: rule_score_def trigger_sum_sum_list)
  show "responses (add_response r g) = responses g @ [r]"
    by (simp add: add_response_def)
next
  fix i
  assume i: "i < length (responses g)"
    and m: "(\<forall>j<i. rule_score g (responses g ! j) < rule_score g (responses g ! i)) \<and>
        (\<forall>j<length (responses g).
            rule_score g (responses g ! j) \<le> rule_score g (responses g ! i))"
  {
    assume "- 1 < rule_score g (responses g ! i)"
    with i m show "scan_rules g (responses g) (None, - 1)
        = (Some (responses g ! i), rule_score g (responses g ! i))"
      by (intro scan_rules_winner) blast+
  }
  {
    assume t: "ACTIVATION_THRESHOLD \<le> rule_score g (responses g ! i)"
    then have "- 1 < rule_score g (responses g ! i)" by (simp add: ACTIVATION_THRESHOLD_def)
    with i m have "scan_rules g (responses g) (None, - 1)
        = (Some (responses g ! i), rule_score g (responses g ! i))"
      by (intro scan_rules_winner) blast+
    with t show "fst (select_response g tr) = responses g ! i"
      by (simp add: select_response_def Let_def)
  }
next
  assume nf: "fst (select_response g tr) \<noteq> fallback_rule"
  with select_response_cases [of g tr]
  show "\<exists>i<length (responses g). fst (select_response g tr) = responses g ! i \<and>
           (\<forall>j<i. rule_score g (responses g ! j) < rule_score g (responses g ! i)) \<and>
           (\<forall>j<length (responses g).
               rule_score g (responses g ! j) \<le> rule_score g (responses g ! i))"
    by blast
qed

theorem select_response_earliest_tie_witness:
  "responses tie_graph = [r_first, r_second]
   \<and> rule_score tie_graph r_first = rule_score tie_graph r_second
   \<and> ACTIVATION_THRESHOLD \<le> rule_score tie_graph r_first
   \<and> fst (select_response tie_graph empty_trace) = r_first
   \<and> fst (select_response tie_graph empty_trace) \<noteq> fallback_rule"
proof -
  have "fst (select_response tie_graph empty_trace) = r_first"
    using select_response_earliest_tie [of tie_graph r_first empty_trace]
    by (simp add: tie_graph_eval ACTIVATION_THRESHOLD_def All_less_Suc2)
  moreover have "r_first \<noteq> fallback_rule" by (simp add: r_first_def fallback_rule_def)
  ultimately show ?thesis by (simp add: tie_graph_eval ACTIVATION_THRESHOLD_def)
qed

text \<open>
  Claim C6. \<^verbatim>\<open>select_response\<close> returns the fallback rule (no trigger concepts, intent
  \<open>unknown\<close>, priority 0) exactly when the graph has no response rules or no rule's score
  reaches the threshold 0.05; otherwise it returns a rule of the graph whose score reaches
  the threshold and is the highest. In both cases the intent of the returned rule is
  written to the trace.
\<close>

theorem select_response_fallback:
  "(fst (select_response g tr) = fallback_rule \<longleftrightarrow>
      responses g = [] \<or> (\<forall>r\<in>set (responses g). rule_score g r < ACTIVATION_THRESHOLD))
   \<and> (fst (select_response g tr) \<noteq> fallback_rule \<longrightarrow>
        fst (select_response g tr) \<in> set (responses g) \<and>
        ACTIVATION_THRESHOLD \<le> rule_score g (fst (select_response g tr)) \<and>
        (\<forall>r\<in>set (responses g). rule_score g r \<le> rule_score g (fst (select_response g tr))))
   \<and> response_intent (snd (select_response g tr)) = intent (fst (select_response g tr))
   \<and> fallback_rule =
       \<lparr>rule_id = ''r_fallback'', trigger_concepts = [], intent = ''unknown'', priority = 0\<rparr>
   \<and> ACTIVATION_THRESHOLD = 0.05"
proof -
  let ?w = "fst (select_response g tr)"
  have real: "?w \<in> set (responses g) \<and> ACTIVATION_THRESHOLD \<le> rule_score g ?w \<and>
        (\<forall>r\<in>set (responses g). rule_score g r \<le> rule_score g ?w)"
    if "\<not> (\<forall>r\<in>set (responses g). rule_score g r < ACTIVATION_THRESHOLD)"
  proof -
    from select_response_cases [of g tr] that obtain i where i: "i < length (responses g)"
      "?w = responses g ! i" "ACTIVATION_THRESHOLD \<le> rule_score g (responses g ! i)"
      "\<forall>j<length (responses g). rule_score g (responses g ! j) \<le> rule_score g (responses g ! i)"
      by blast
    then show ?thesis by (metis in_set_conv_nth)
  qed
  have fb: "?w = fallback_rule \<longleftrightarrow>
      (\<forall>r\<in>set (responses g). rule_score g r < ACTIVATION_THRESHOLD)"
  proof
    assume "?w = fallback_rule"
    then have "rule_score g ?w = 0" by (simp add: rule_score_fallback)
    then have "\<not> ACTIVATION_THRESHOLD \<le> rule_score g ?w"
      by (simp add: ACTIVATION_THRESHOLD_def)
    with real show "\<forall>r\<in>set (responses g). rule_score g r < ACTIVATION_THRESHOLD" by blast
  next
    assume a: "\<forall>r\<in>set (responses g). rule_score g r < ACTIVATION_THRESHOLD"
    from select_response_cases [of g tr] show "?w = fallback_rule"
    proof (elim disjE exE conjE)
      fix i
      assume "i < length (responses g)"
        "ACTIVATION_THRESHOLD \<le> rule_score g (responses g ! i)"
      with a show ?thesis by (metis nth_mem not_less)
    qed
  qed
  have 1: "?w = fallback_rule \<longleftrightarrow>
      responses g = [] \<or> (\<forall>r\<in>set (responses g). rule_score g r < ACTIVATION_THRESHOLD)"
    using fb by auto
  have 2: "?w \<noteq> fallback_rule \<longrightarrow>
        ?w \<in> set (responses g) \<and> ACTIVATION_THRESHOLD \<le> rule_score g ?w \<and>
        (\<forall>r\<in>set (responses g). rule_score g r \<le> rule_score g ?w)"
    using fb real by blast
  have 3: "response_intent (snd (select_response g tr)) = intent ?w"
    by (simp add: select_response_def Let_def case_prod_beta)
  show ?thesis using 1 2 3 by (simp add: fallback_rule_def ACTIVATION_THRESHOLD_def)
qed

theorem select_response_fallback_witness:
  "responses empty_graph = []
   \<and> fst (select_response empty_graph empty_trace) = fallback_rule
   \<and> response_intent (snd (select_response empty_graph empty_trace)) = ''unknown''
   \<and> \<not> (\<forall>r\<in>set (responses tie_graph). rule_score tie_graph r < ACTIVATION_THRESHOLD)
   \<and> fst (select_response tie_graph empty_trace) \<noteq> fallback_rule
   \<and> fst (select_response tie_graph empty_trace) \<in> set (responses tie_graph)
   \<and> response_intent (snd (select_response tie_graph empty_trace))
       = intent (fst (select_response tie_graph empty_trace))"
proof -
  have e: "responses empty_graph = []" by (simp add: empty_graph_def)
  have t: "\<not> (\<forall>r\<in>set (responses tie_graph). rule_score tie_graph r < ACTIVATION_THRESHOLD)"
    by (simp add: tie_graph_eval ACTIVATION_THRESHOLD_def)
  have "intent fallback_rule = ''unknown''" by (simp add: fallback_rule_def)
  with e t show ?thesis
    using select_response_fallback [of empty_graph empty_trace]
      select_response_fallback [of tie_graph empty_trace]
    by (simp add: tie_graph_eval)
qed

section \<open>The active concepts\<close>

lemma active_pairs_sorted: "sorted (rev (active_pairs g))"
  by (simp add: active_pairs_def Let_def)

text \<open>
  Claim C7. The active concepts are exactly the nodes whose activation exceeds 0.05, each
  once; they are in descending order of activation, and among equal activations in
  descending order of concept id, which is how \<^verbatim>\<open>sort(reverse=True)\<close> orders the
  \<^verbatim>\<open>(activation, id)\<close> tuples.
\<close>

theorem active_concepts_order:
  "mset (active_pairs g) =
     image_mset (\<lambda>n. (activation n, node_id n))
       (filter_mset (\<lambda>n. activation n > 0.05) (mset (map snd (nodes g))))
   \<and> set (active_ids g) = {node_id n | n. n \<in> snd ` set (nodes g) \<and> activation n > 0.05}
   \<and> active_ids g = map snd (active_pairs g)
   \<and> (\<forall>i j. i < j \<and> j < length (active_pairs g) \<longrightarrow>
         fst (active_pairs g ! i) > fst (active_pairs g ! j)
         \<or> (fst (active_pairs g ! i) = fst (active_pairs g ! j)
             \<and> snd (active_pairs g ! i) \<ge> snd (active_pairs g ! j)))"
proof (intro conjI allI impI)
  show "mset (active_pairs g) =
     image_mset (\<lambda>n. (activation n, node_id n))
       (filter_mset (\<lambda>n. activation n > 0.05) (mset (map snd (nodes g))))"
    by (simp add: active_pairs_def Let_def ACTIVATION_THRESHOLD_def)
  have "set (active_pairs g)
        = (\<lambda>n. (activation n, node_id n)) ` {n \<in> snd ` set (nodes g). activation n > 0.05}"
    by (simp add: active_pairs_def Let_def ACTIVATION_THRESHOLD_def)
  then show "set (active_ids g)
             = {node_id n | n. n \<in> snd ` set (nodes g) \<and> activation n > 0.05}"
    unfolding active_ids_def set_map by (auto simp: image_image)
  show "active_ids g = map snd (active_pairs g)" by (simp add: active_ids_def)
next
  fix i j assume ij: "i < j \<and> j < length (active_pairs g)"
  then have "active_pairs g ! j \<le> active_pairs g ! i"
    using sorted_rev_nth_mono [OF active_pairs_sorted, of i j g] by simp
  then show "fst (active_pairs g ! i) > fst (active_pairs g ! j)
         \<or> (fst (active_pairs g ! i) = fst (active_pairs g ! j)
             \<and> snd (active_pairs g ! i) \<ge> snd (active_pairs g ! j))"
    by (auto simp: less_eq_prod_def)
qed

theorem active_concepts_order_witness:
  "active_pairs ranked_graph = [(1, ''beta''), (1, ''alpha''), (0.5, ''gamma'')]
   \<and> active_ids ranked_graph = [''beta'', ''alpha'', ''gamma'']
   \<and> (0::nat) < 1 \<and> 1 < length (active_pairs ranked_graph)
   \<and> fst (active_pairs ranked_graph ! 0) = fst (active_pairs ranked_graph ! 1)
   \<and> snd (active_pairs ranked_graph ! 0) \<ge> snd (active_pairs ranked_graph ! 1)"
proof -
  have p: "active_pairs ranked_graph = [(1, ''beta''), (1, ''alpha''), (0.5, ''gamma'')]"
    by (simp add: active_pairs_def ranked_graph_def graph_defs ACTIVATION_THRESHOLD_def Let_def
        less_eq_prod_def)
  show ?thesis
    using active_concepts_order [of ranked_graph] by (simp add: p)
qed

end
